theory Spec2Isabelle
  imports Main "HOL-Library.Monad_Syntax"
begin

section \<open>The error-message stack of package elist\<close>

text \<open>
  The package has one struct, \<^verbatim>\<open>Elist\<close>, with the fields \<^verbatim>\<open>next *Elist\<close> and
  \<^verbatim>\<open>value interface{}\<close>, one method, \<^verbatim>\<open>(*Elist).Error\<close>, and four functions,
  \<^verbatim>\<open>New\<close>, \<^verbatim>\<open>Newf\<close>, \<^verbatim>\<open>Push\<close> and \<^verbatim>\<open>Pushf\<close>. Nodes are allocated with
  \<^verbatim>\<open>new(Elist)\<close> and linked by pointer, so the model keeps an explicit store of nodes;
  every function takes the store and returns it. An error of another type is stored in
  a node as it is and asked for its text each time the chain is rendered; what it
  answers may depend on state outside of the nodes and may change that state. This
  state is the world, of type \<open>'w\<close>.
\<close>

subsection \<open>Values\<close>

text \<open>A pointer \<^verbatim>\<open>*Elist\<close> is \<open>None\<close> (nil) or the address of a node in the store.\<close>

type_synonym addr = nat

text \<open>
  An error value of some other type than \<^verbatim>\<open>*Elist\<close>, given by what it does when asked:
  \<^item> \<open>Error_method\<close> is a call of its method \<^verbatim>\<open>Error()\<close> in a world: the string returned,
    or \<open>None\<close> when the call panics (as a method does that reads through a nil pointer
    receiver), and the world after the call;
  \<^item> \<open>fmt_v\<close> is what package \<^verbatim>\<open>fmt\<close> prints for the value under the verb \<^verbatim>\<open>%v\<close>, and the
    world afterwards. Package \<^verbatim>\<open>fmt\<close> calls the method \<^verbatim>\<open>Format\<close> of a value that has
    one and the method \<^verbatim>\<open>Error()\<close> otherwise, and it prints \<^verbatim>\<open><nil>\<close> when that call
    panics on a nil pointer; so the two fields agree for an error without a \<^verbatim>\<open>Format\<close>
    method whose \<^verbatim>\<open>Error()\<close> returns, and need not agree otherwise.
\<close>

datatype 'w foreign = Foreign
  (Error_method: "'w \<Rightarrow> string option \<times> 'w")
  (fmt_v: "'w \<Rightarrow> string \<times> 'w")

text \<open>
  The interface type \<^verbatim>\<open>error\<close>: the nil interface, an \<^verbatim>\<open>*Elist\<close> (whose pointer may
  itself be nil), or a foreign error.
\<close>

datatype 'w error = NilError | ElistError "addr option" | ForeignError "'w foreign"

text \<open>
  The interface type \<^verbatim>\<open>interface{}\<close> of the field \<^verbatim>\<open>value\<close>, as the type switch of
  \<^verbatim>\<open>Error\<close> tells its values apart: nil, a \<^verbatim>\<open>string\<close>, an \<^verbatim>\<open>error\<close> (an \<^verbatim>\<open>*Elist\<close>
  or a foreign one), or a value of any other type, which is given by what \<^verbatim>\<open>%v\<close> prints
  for it in a world, and the world afterwards.
\<close>

datatype 'w any = NilValue | StringValue string | ElistValue "addr option"
  | ForeignValue "'w foreign" | OtherValue "'w \<Rightarrow> string \<times> 'w"

text \<open>Assigning an \<^verbatim>\<open>error\<close> to an \<^verbatim>\<open>interface{}\<close> (as \<^verbatim>\<open>q.value = e\<close> does).\<close>

fun to_any :: "'w error \<Rightarrow> 'w any" where
  "to_any NilError = NilValue"
| "to_any (ElistError q) = ElistValue q"
| "to_any (ForeignError f) = ForeignValue f"

record 'w Elist =
  next_f :: "addr option"
  value_f :: "'w any"

text \<open>The store: the node at address \<open>a\<close> is \<open>h ! a\<close>; nodes are never freed.\<close>

type_synonym 'w heap = "'w Elist list"

text \<open>
  \<^verbatim>\<open>new(Elist)\<close> allocates a node with both fields zero and returns its address; it
  never returns nil.
\<close>

definition new_Elist :: "'w heap \<Rightarrow> addr \<times> 'w heap" where
  "new_Elist h = (length h, h @ [\<lparr>next_f = None, value_f = NilValue\<rparr>])"

text \<open>The assignments \<^verbatim>\<open>p.value = v\<close> and \<^verbatim>\<open>p.next = q\<close> through a non-nil pointer.\<close>

definition set_value :: "addr \<Rightarrow> 'w any \<Rightarrow> 'w heap \<Rightarrow> 'w heap" where
  "set_value a v h = h[a := (h ! a)\<lparr>value_f := v\<rparr>]"

definition set_next :: "addr \<Rightarrow> addr option \<Rightarrow> 'w heap \<Rightarrow> 'w heap" where
  "set_next a q h = h[a := (h ! a)\<lparr>next_f := q\<rparr>]"

subsection \<open>The calls of package fmt\<close>

text \<open>
  \<^verbatim>\<open>Error\<close> builds its text with five calls of \<^verbatim>\<open>fmt.Sprintf\<close> and \<^verbatim>\<open>fmt.Sprint\<close>, each
  with a constant format. The verb \<^verbatim>\<open>%d\<close> prints an \<^verbatim>\<open>int\<close> in decimal and \<^verbatim>\<open>%s\<close> prints a
  string as it is; what \<^verbatim>\<open>%v\<close> prints comes with the value (\<open>fmt_v\<close> above).
\<close>

definition digit_char :: "nat \<Rightarrow> char" where
  "digit_char d = ''0123456789'' ! d"

function decimal :: "nat \<Rightarrow> string" where
  "decimal n = (if n < 10 then [digit_char n] else decimal (n div 10) @ [digit_char (n mod 10)])"
  by pat_completeness auto
termination
  by (relation "measure id") auto

declare decimal.simps [simp del]

definition fmt_d :: "int \<Rightarrow> string" where
  "fmt_d n = (if n < 0 then CHR ''-'' # decimal (nat (- n)) else decimal (nat n))"

definition dquote :: char where
  "dquote = CHR 0x22"

definition newline :: char where
  "newline = CHR 0x0A"

text \<open>\<^verbatim>\<open>fmt.Sprintf(": \"%s\"", x)\<close> and \<^verbatim>\<open>fmt.Sprintf(": \"%v\"", x)\<close>, given the text of \<open>x\<close>.\<close>

definition Sprintf_quoted :: "string \<Rightarrow> string" where
  "Sprintf_quoted x = '': '' @ [dquote] @ x @ [dquote]"

text \<open>\<^verbatim>\<open>fmt.Sprint(": [error == nil]")\<close>.\<close>

definition Sprint_nil :: string where
  "Sprint_nil = '': [error == nil]''"

text \<open>\<^verbatim>\<open>fmt.Sprintf(": [Unrecognized error] \"%v\"", x)\<close>, given the text of \<open>x\<close>.\<close>

definition Sprintf_unrecognized :: "string \<Rightarrow> string" where
  "Sprintf_unrecognized x = '': [Unrecognized error] '' @ [dquote] @ x @ [dquote]"

text \<open>\<^verbatim>\<open>fmt.Sprintf("Error %d%s.\n", n, msg)\<close>.\<close>

definition Sprintf_line :: "int \<Rightarrow> string \<Rightarrow> string" where
  "Sprintf_line n msg = ''Error '' @ fmt_d n @ msg @ ''.'' @ [newline]"

subsection \<open>The method Error\<close>

text \<open>
  The loop \<^verbatim>\<open>for q := p; q != nil; q = q.next\<close> with its variables \<open>q\<close>, \<open>n\<close> and \<open>str\<close>;
  it takes the store \<open>h\<close> and the world \<open>w\<close> and returns them with the string.
  The counter \<open>n\<close> is an \<^verbatim>\<open>int\<close>; it counts nodes of the store, of which there are fewer
  than the largest \<^verbatim>\<open>int\<close>, so it is modelled without wrap-around. The loop does not end
  when the \<^verbatim>\<open>next\<close> pointers form a cycle, so the result is an option, with \<open>None\<close> for
  no result. In the case \<^verbatim>\<open>error\<close> of the type switch, \<^verbatim>\<open>%v\<close> is applied to the value
  that the node holds: for a foreign error this is \<open>fmt_v\<close>, in the world of this
  moment; for an \<^verbatim>\<open>*Elist\<close> it is a nested call of this method (written out here: the
  empty string for a nil pointer, the loop from \<open>n = 1\<close> and the empty string otherwise).
  Go has no dangling pointers; an address outside of the store gives no result.
\<close>

partial_function (option) Error_loop ::
    "addr option \<Rightarrow> int \<Rightarrow> string \<Rightarrow> 'w heap \<Rightarrow> 'w \<Rightarrow> (string \<times> 'w heap \<times> 'w) option" where
  "Error_loop q n str h w =
     (case q of
        None \<Rightarrow> Some (str, h, w)
      | Some a \<Rightarrow>
          if a < length h then
            (case value_f (h ! a) of
               StringValue x \<Rightarrow> Some (Sprintf_quoted x, h, w)
             | ForeignValue f \<Rightarrow> (case fmt_v f w of (x, w) \<Rightarrow> Some (Sprintf_quoted x, h, w))
             | ElistValue r \<Rightarrow>
                 (if r = None then Some ('''', h, w) else Error_loop r 1 '''' h w)
                   \<bind> (\<lambda>(x, h, w). Some (Sprintf_quoted x, h, w))
             | NilValue \<Rightarrow> Some (Sprint_nil, h, w)
             | OtherValue g \<Rightarrow> (case g w of (x, w) \<Rightarrow> Some (Sprintf_unrecognized x, h, w)))
              \<bind> (\<lambda>(msg, h, w).
                if a < length h
                then Error_loop (next_f (h ! a)) (n + 1) (str @ Sprintf_line n msg) h w
                else None)
          else None)"

declare Error_loop.simps [code]

definition Error :: "addr option \<Rightarrow> 'w heap \<Rightarrow> 'w \<Rightarrow> (string \<times> 'w heap \<times> 'w) option" where
  "Error p h w = (if p = None then Some ('''', h, w) else Error_loop p 1 '''' h w)"

subsection \<open>The constructors\<close>

text \<open>
  Both constructors test the pointer that \<^verbatim>\<open>new\<close> returned against nil (\<^verbatim>\<open>This will never
  happen\<close>, in the words of the source); the test is kept. Neither constructor calls a
  method of the error it is given, so neither touches the world.
\<close>

definition New :: "string \<Rightarrow> 'w heap \<Rightarrow> 'w error \<times> 'w heap" where
  "New s h =
     (let (a, h) = new_Elist h; p = Some a in
      if p = None then (NilError, h)
      else
        let h = set_value a (StringValue s) h
        in (ElistError p, h))"

text \<open>
  The type assertion \<^verbatim>\<open>q, ok := e.(*Elist)\<close>: the pointer and \<open>True\<close> when the dynamic type
  of \<open>e\<close> is \<^verbatim>\<open>*Elist\<close>, the nil pointer and \<open>False\<close> otherwise.
\<close>

fun assert_Elist :: "'w error \<Rightarrow> addr option \<times> bool" where
  "assert_Elist (ElistError q) = (q, True)"
| "assert_Elist e = (None, False)"

definition Push :: "'w error \<Rightarrow> string \<Rightarrow> 'w heap \<Rightarrow> 'w error \<times> 'w heap" where
  "Push e s h =
     (let (a, h) = new_Elist h; p = Some a in
      if p = None then (NilError, h)
      else
        let h = set_value a (StringValue s) h in
        if e = NilError then (ElistError p, h)
        else
          let (q, ok) = assert_Elist e;
              (q, h) = (if \<not> ok
                        then (let (b, h) = new_Elist h;
                                  h = set_value b (to_any e) h
                              in (Some b, h))
                        else (q, h));
              h = set_next a q h
          in (ElistError p, h))"

text \<open>
  \<^verbatim>\<open>Newf\<close> and \<^verbatim>\<open>Pushf\<close> pass their format and arguments to \<^verbatim>\<open>fmt.Sprintf\<close>, which is
  a parameter here; \<open>'a\<close> is the type of the arguments.
\<close>

definition Newf ::
    "(string \<Rightarrow> 'a list \<Rightarrow> string) \<Rightarrow> string \<Rightarrow> 'a list \<Rightarrow> 'w heap \<Rightarrow> 'w error \<times> 'w heap" where
  "Newf Sprintf format args h = New (Sprintf format args) h"

definition Pushf ::
    "(string \<Rightarrow> 'a list \<Rightarrow> string) \<Rightarrow> 'w error \<Rightarrow> string \<Rightarrow> 'a list \<Rightarrow> 'w heap
      \<Rightarrow> 'w error \<times> 'w heap" where
  "Pushf Sprintf e format args h = Push e (Sprintf format args) h"

text \<open>
  A call \<^verbatim>\<open>e.Error()\<close> on a value of the interface type \<^verbatim>\<open>error\<close>, as a caller of the
  package writes it: the nil interface has no method to call (the call panics, no
  result), an \<^verbatim>\<open>*Elist\<close> runs the method above, a foreign error runs its own method
  (no result when that panics).
\<close>

definition call_Error :: "'w error \<Rightarrow> 'w heap \<Rightarrow> 'w \<Rightarrow> (string \<times> 'w heap \<times> 'w) option" where
  "call_Error e h w =
     (case e of
        NilError \<Rightarrow> None
      | ElistError p \<Rightarrow> Error p h w
      | ForeignError f \<Rightarrow>
          (case Error_method f w of
             (Some t, w) \<Rightarrow> Some (t, h, w)
           | (None, w) \<Rightarrow> None))"

subsection \<open>Chains and their expected text\<close>

text \<open>
  \<open>chain h q as\<close>: following \<^verbatim>\<open>next\<close> from the pointer \<open>q\<close> visits exactly the nodes at the
  addresses \<open>as\<close>, in this order, and then reaches nil.
\<close>

fun chain :: "'w heap \<Rightarrow> addr option \<Rightarrow> addr list \<Rightarrow> bool" where
  "chain h q [] = (q = None)"
| "chain h q (a # as) = (q = Some a \<and> a < length h \<and> chain h (next_f (h ! a)) as)"

text \<open>
  The line that the specification gives for position \<open>n\<close> and text \<open>t\<close>:
  \<^verbatim>\<open>Error {n}: "{t}".\<close> and a newline; and the lines for the texts \<open>ts\<close>, numbered from \<open>n\<close>.
\<close>

definition line :: "int \<Rightarrow> string \<Rightarrow> string" where
  "line n t = ''Error '' @ fmt_d n @ '': '' @ [dquote] @ t @ [dquote] @ ''.'' @ [newline]"

fun lines_from :: "int \<Rightarrow> string list \<Rightarrow> string" where
  "lines_from n [] = []"
| "lines_from n (t # ts) = line n t @ lines_from (n + 1) ts"

text \<open>
  The text of a payload that is a message or a foreign error, in a world: the message
  itself, or what \<^verbatim>\<open>%v\<close> prints for the foreign error; and the lines for a list of such
  payloads, numbered from \<open>n\<close>, each text taken in the world that the one before left.
\<close>

fun payload_text :: "'w any \<Rightarrow> 'w \<Rightarrow> (string \<times> 'w) option" where
  "payload_text (StringValue x) w = Some (x, w)"
| "payload_text (ForeignValue f) w = Some (fmt_v f w)"
| "payload_text v w = None"

fun chain_lines :: "int \<Rightarrow> 'w any list \<Rightarrow> 'w \<Rightarrow> (string \<times> 'w) option" where
  "chain_lines n [] w = Some ([], w)"
| "chain_lines n (v # vs) w =
     (case payload_text v w of
        None \<Rightarrow> None
      | Some (t, w) \<Rightarrow>
          (case chain_lines (n + 1) vs w of
             None \<Rightarrow> None
           | Some (out, w) \<Rightarrow> Some (line n t @ out, w)))"

subsection \<open>Sequences of calls\<close>

text \<open>
  Pushing the messages \<open>ss\<close> one after the other, each call taking the error that the
  call before it returned: \<^verbatim>\<open>e = Push(e, s)\<close> for each \<open>s\<close> in turn.
\<close>

fun Push_all :: "'w error \<Rightarrow> string list \<Rightarrow> 'w heap \<Rightarrow> 'w error \<times> 'w heap" where
  "Push_all e [] h = (e, h)"
| "Push_all e (s # ss) h = (case Push e s h of (e', h') \<Rightarrow> Push_all e' ss h')"





text \<open>
  The stores that calls of the four functions build, starting with no node at all.
  The fields of \<^verbatim>\<open>Elist\<close> are not exported, so outside of the package a node can only be
  written by these functions. A caller passes to \<^verbatim>\<open>Push\<close> the nil interface, a foreign
  error, a nil \<^verbatim>\<open>*Elist\<close>, or a pointer that an earlier call returned, which is the
  address of a node of the store; \<open>admissible\<close> allows the address of any node of the
  store, which covers these. (The type \<^verbatim>\<open>Elist\<close> is exported, so a caller can also
  allocate a node of its own, with no payload; such a node is not built by the four
  functions and is not part of these stores.) The arguments of a format are values of
  \<^verbatim>\<open>interface{}\<close>.
\<close>

definition admissible :: "'w heap \<Rightarrow> 'w error \<Rightarrow> bool" where
  "admissible h e = (case e of ElistError (Some a) \<Rightarrow> a < length h | _ \<Rightarrow> True)"

inductive reachable :: "'w heap \<Rightarrow> bool" where
  initially: "reachable []"
| after_New: "reachable h \<Longrightarrow> reachable (snd (New s h))"
| after_Newf: "reachable h \<Longrightarrow>
     reachable (snd (Newf Sprintf format (args :: 'w any list) h))"
| after_Push: "reachable h \<Longrightarrow> admissible h e \<Longrightarrow> reachable (snd (Push e s h))"
| after_Pushf: "reachable h \<Longrightarrow> admissible h e \<Longrightarrow>
     reachable (snd (Pushf Sprintf e format (args :: 'w any list) h))"

text \<open>The payloads that the cases \<^verbatim>\<open>string\<close> and \<^verbatim>\<open>error\<close> (with a foreign error) take.\<close>

fun message_or_foreign :: "'w any \<Rightarrow> bool" where
  "message_or_foreign (StringValue x) = True"
| "message_or_foreign (ForeignValue f) = True"
| "message_or_foreign v = False"

text \<open>The invariant of the stores above: every node holds a message or a foreign error
  and starts a chain that ends.\<close>

definition well_built :: "'w heap \<Rightarrow> bool" where
  "well_built h =
     (\<forall>a<length h. message_or_foreign (value_f (h ! a)) \<and> (\<exists>as. chain h (Some a) as))"

subsection \<open>Three foreign errors\<close>

text \<open>
  An error of the usual kind, whose type has the one method
  \<^verbatim>\<open>func (e eof) Error() string { return "EOF" }\<close>: \<^verbatim>\<open>%v\<close> prints what \<^verbatim>\<open>Error()\<close> returns,
  and no state is involved.
\<close>

definition plain_error :: "unit foreign" where
  "plain_error = Foreign (\<lambda>w. (Some ''EOF'', w)) (\<lambda>w. (''EOF'', w))"

text \<open>
  An error that formats itself: its type has the methods
  \<^verbatim>\<open>func (e fancy) Error() string { return "plain" }\<close> and
  \<^verbatim>\<open>func (e fancy) Format(f fmt.State, c rune) { io.WriteString(f, "formatted") }\<close>,
  so \<^verbatim>\<open>%v\<close> prints \<^verbatim>\<open>formatted\<close>.
\<close>

definition formatted_error :: "unit foreign" where
  "formatted_error = Foreign (\<lambda>w. (Some ''plain'', w)) (\<lambda>w. (''formatted'', w))"


text \<open>A foreign error for which \<^verbatim>\<open>%v\<close> prints, in the world \<open>w\<close>, what its own
  \<^verbatim>\<open>Error()\<close> returns there.\<close>

definition prints_own_text :: "'w foreign \<Rightarrow> 'w \<Rightarrow> bool" where
  "prints_own_text f w =
     (case Error_method f w of
        (Some t, w') \<Rightarrow> fmt_v f w = (t, w')
      | (None, w') \<Rightarrow> False)"

section \<open>Properties\<close>

subsection \<open>What the constructors build\<close>

lemma New_eq:
  "New s h = (ElistError (Some (length h)), h @ [\<lparr>next_f = None, value_f = StringValue s\<rparr>])"
  by (simp add: New_def new_Elist_def set_value_def)

lemma Push_NilError:
  "Push NilError s h =
     (ElistError (Some (length h)), h @ [\<lparr>next_f = None, value_f = StringValue s\<rparr>])"
  by (simp add: Push_def new_Elist_def set_value_def)

lemma Push_ElistError:
  "Push (ElistError q) s h =
     (ElistError (Some (length h)), h @ [\<lparr>next_f = q, value_f = StringValue s\<rparr>])"
  by (simp add: Push_def new_Elist_def set_value_def set_next_def)

lemma Push_ForeignError:
  "Push (ForeignError f) s h =
     (ElistError (Some (length h)),
      h @ [\<lparr>next_f = Some (Suc (length h)), value_f = StringValue s\<rparr>,
           \<lparr>next_f = None, value_f = ForeignValue f\<rparr>])"
  by (simp add: Push_def new_Elist_def set_value_def set_next_def nth_append list_update_append)

subsection \<open>What the loop computes on a chain\<close>

lemma decimal_digit: "n < 10 \<Longrightarrow> decimal n = [digit_char n]"
  by (simp add: decimal.simps)

lemma fmt_d_1: "fmt_d 1 = ''1''"
  by (simp add: fmt_d_def decimal_digit digit_char_def)

lemma fmt_d_2: "fmt_d 2 = ''2''"
  by (simp add: fmt_d_def decimal_digit digit_char_def)

lemma line_1: "line 1 t = ''Error 1: '' @ [dquote] @ t @ [dquote] @ ''.'' @ [newline]"
  by (simp add: line_def fmt_d_1)

lemma line_2: "line 2 t = ''Error 2: '' @ [dquote] @ t @ [dquote] @ ''.'' @ [newline]"
  by (simp add: line_def fmt_d_2)

lemma Sprintf_line_quoted: "Sprintf_line n (Sprintf_quoted t) = line n t"
  by (simp add: Sprintf_line_def Sprintf_quoted_def line_def)

lemma Error_loop_None: "Error_loop None n str h w = Some (str, h, w)"
  by (subst Error_loop.simps) simp

lemma Error_loop_text:
  "a < length h \<Longrightarrow> payload_text (value_f (h ! a)) w = Some (t, w1) \<Longrightarrow>
   Error_loop (Some a) n str h w = Error_loop (next_f (h ! a)) (n + 1) (str @ line n t) h w1"
  by (subst Error_loop.simps, cases "value_f (h ! a)") (auto simp: Sprintf_line_quoted)

lemma Error_loop_chain:
  "chain h q as \<Longrightarrow> chain_lines n (map (\<lambda>a. value_f (h ! a)) as) w = Some (out, w') \<Longrightarrow>
   Error_loop q n str h w = Some (str @ out, h, w')"
proof (induction as arbitrary: q n str w out)
  case Nil
  then show ?case by (simp add: Error_loop_None)
next
  case (Cons a as)
  from Cons.prems(2) obtain t w1 out1 where
    t: "payload_text (value_f (h ! a)) w = Some (t, w1)" and
    rest: "chain_lines (n + 1) (map (\<lambda>a. value_f (h ! a)) as) w1 = Some (out1, w')" and
    out: "out = line n t @ out1"
    by (auto split: option.splits)
  from Cons.prems(1) have q: "q = Some a" "a < length h" "chain h (next_f (h ! a)) as" by auto
  show ?case
    using Cons.IH [OF q(3) rest] q t out by (simp add: Error_loop_text)
qed

lemma Error_chain:
  "chain h (Some a) as \<Longrightarrow> chain_lines 1 (map (\<lambda>a. value_f (h ! a)) as) w = Some (out, w') \<Longrightarrow>
   Error (Some a) h w = Some (out, h, w')"
  using Error_loop_chain [of h "Some a" as 1 w out w' "[]"] by (simp add: Error_def)

lemma chain_lines_strings: "chain_lines n (map StringValue ts) w = Some (lines_from n ts, w)"
  by (induction ts arbitrary: n) simp_all

lemma Error_single:
  "Error (Some (length h)) (h @ [\<lparr>next_f = None, value_f = StringValue s\<rparr>]) w =
     Some (line 1 s, h @ [\<lparr>next_f = None, value_f = StringValue s\<rparr>], w)"
  by (rule Error_chain [where as = "[length h]"]) simp_all

subsection \<open>Rendering the chains of one and two nodes\<close>

text \<open>
  C3. \<^verbatim>\<open>Error\<close> called on a nil \<^verbatim>\<open>*Elist\<close> returns the empty string, whatever the store
  and the world hold, and leaves both as they are.
\<close>

theorem Error_nil: "Error None h w = Some ('''', h, w)"
  by (simp add: Error_def)

text \<open>
  C2. For every string \<open>s\<close>, in every store and world, the text of the error that
  \<^verbatim>\<open>New(s)\<close> returns is the one line \<^verbatim>\<open>Error 1: "s".\<close> ended by a newline.
\<close>

theorem New_render:
  "case New s h of (c, h') \<Rightarrow>
     call_Error c h' w =
       Some (''Error 1: '' @ [dquote] @ s @ [dquote] @ ''.'' @ [newline], h', w)"
  by (simp add: New_eq call_Error_def Error_single line_1)

text \<open>
  C1. For all strings \<open>s1\<close> and \<open>s2\<close>, in every store and world, the text of
  \<^verbatim>\<open>Push(New(s1), s2)\<close> is the line \<^verbatim>\<open>Error 1: "s2".\<close> followed by the line
  \<^verbatim>\<open>Error 2: "s1".\<close>: the message pushed last comes first.
\<close>

theorem Push_New_render:
  "case New s1 h of (c1, h1) \<Rightarrow>
   case Push c1 s2 h1 of (c2, h2) \<Rightarrow>
     call_Error c2 h2 w =
       Some (''Error 1: '' @ [dquote] @ s2 @ [dquote] @ ''.'' @ [newline] @
             ''Error 2: '' @ [dquote] @ s1 @ [dquote] @ ''.'' @ [newline], h2, w)"
proof -
  let ?h2 = "h @ [\<lparr>next_f = None, value_f = StringValue s1\<rparr>,
                  \<lparr>next_f = Some (length h), value_f = StringValue s2\<rparr>]"
  have "Error (Some (Suc (length h))) ?h2 w = Some (line 1 s2 @ line 2 s1, ?h2, w)"
    by (rule Error_chain [where as = "[Suc (length h), length h]"])
      (simp_all add: nth_append)
  then show ?thesis
    by (simp add: New_eq Push_ElistError call_Error_def line_1 line_2)
qed

text \<open>
  C4. For every string \<open>s\<close>, in every store and world, \<^verbatim>\<open>Push(nil, s)\<close> does what
  \<^verbatim>\<open>New(s)\<close> does: it returns the same pointer and the same store, so the two texts are
  equal (the one line for \<open>s\<close>); one node is allocated, it holds the message \<open>s\<close> and
  its \<^verbatim>\<open>next\<close> is nil, so the chain is this node alone.
\<close>

theorem Push_nil_like_New:
  "Push NilError s h = New s h \<and>
   (case Push NilError s h of (c, h') \<Rightarrow>
      call_Error c h' w = (case New s h of (c0, h0) \<Rightarrow> call_Error c0 h0 w) \<and>
      call_Error c h' w =
        Some (''Error 1: '' @ [dquote] @ s @ [dquote] @ ''.'' @ [newline], h', w) \<and>
      c = ElistError (Some (length h)) \<and>
      length h' = Suc (length h) \<and>
      chain h' (Some (length h)) [length h] \<and>
      next_f (h' ! length h) = None \<and>
      value_f (h' ! length h) = StringValue s)"
  by (simp add: Push_NilError New_eq call_Error_def Error_single line_1)

text \<open>
  C10. When \<open>e\<close> is an interface value that is not nil but holds a nil \<^verbatim>\<open>*Elist\<close>,
  \<^verbatim>\<open>Push(e, s)\<close> allocates the one node for \<open>s\<close> and stores the nil pointer itself in its
  \<^verbatim>\<open>next\<close>: no second node is made, and the text is the single line for \<open>s\<close>.
\<close>

theorem Push_typed_nil:
  "case Push (ElistError None) s h of (c, h') \<Rightarrow>
     c = ElistError (Some (length h)) \<and>
     h' = h @ [\<lparr>next_f = None, value_f = StringValue s\<rparr>] \<and>
     chain h' (Some (length h)) [length h] \<and>
     call_Error c h' w =
       Some (''Error 1: '' @ [dquote] @ s @ [dquote] @ ''.'' @ [newline], h', w)"
  by (simp add: Push_ElistError call_Error_def Error_single line_1)

subsection \<open>Adopting a foreign error\<close>

lemma Error_foreign_pair:
  "fmt_v f w = (t, w') \<Longrightarrow>
   Error (Some (length h))
     (h @ [\<lparr>next_f = Some (Suc (length h)), value_f = StringValue s\<rparr>,
           \<lparr>next_f = None, value_f = ForeignValue f\<rparr>]) w =
   Some (line 1 s @ line 2 t,
     h @ [\<lparr>next_f = Some (Suc (length h)), value_f = StringValue s\<rparr>,
          \<lparr>next_f = None, value_f = ForeignValue f\<rparr>], w')"
  by (rule Error_chain [where as = "[length h, Suc (length h)]"]) (simp_all add: nth_append)

text \<open>
  C5, as the code has it. For every foreign error \<open>f\<close> and every string \<open>s\<close>, in every
  store and world, \<^verbatim>\<open>Push(f, s)\<close> returns a chain of two nodes, the second holding \<open>f\<close>
  itself; its text is the line \<^verbatim>\<open>Error 1: "s".\<close> followed by the line \<^verbatim>\<open>Error 2: "t".\<close>,
  where \<open>t\<close> is what \<^verbatim>\<open>%v\<close> prints for \<open>f\<close> when the chain is rendered. Where \<^verbatim>\<open>%v\<close> prints
  what the method \<^verbatim>\<open>Error()\<close> of \<open>f\<close> returns, \<open>t\<close> is the text that \<open>f\<close> gives of itself.
\<close>

theorem Push_foreign_render:
  "case Push (ForeignError f) s h of (c, h') \<Rightarrow>
     (\<exists>a b. c = ElistError (Some a) \<and> chain h' (Some a) [a, b] \<and>
        value_f (h' ! a) = StringValue s \<and> value_f (h' ! b) = ForeignValue f) \<and>
     (case fmt_v f w of (t, w') \<Rightarrow>
        call_Error c h' w =
          Some (''Error 1: '' @ [dquote] @ s @ [dquote] @ ''.'' @ [newline] @
                ''Error 2: '' @ [dquote] @ t @ [dquote] @ ''.'' @ [newline], h', w')) \<and>
     (prints_own_text f w \<longrightarrow>
        (\<exists>t w'. call_Error (ForeignError f) h w = Some (t, h, w') \<and>
           call_Error c h' w =
             Some (''Error 1: '' @ [dquote] @ s @ [dquote] @ ''.'' @ [newline] @
                   ''Error 2: '' @ [dquote] @ t @ [dquote] @ ''.'' @ [newline], h', w')))"
proof -
  let ?h' = "h @ [\<lparr>next_f = Some (Suc (length h)), value_f = StringValue s\<rparr>,
                  \<lparr>next_f = None, value_f = ForeignValue f\<rparr>]"
  obtain t w' where v: "fmt_v f w = (t, w')" by (cases "fmt_v f w")
  have c: "chain ?h' (Some (length h)) [length h, Suc (length h)]"
    by (simp add: nth_append)
  have e: "Error (Some (length h)) ?h' w = Some (line 1 s @ line 2 t, ?h', w')"
    by (rule Error_foreign_pair [OF v])
  have own: "call_Error (ForeignError f) h w = Some (t, h, w')" if "prints_own_text f w"
    using that v by (auto simp: prints_own_text_def call_Error_def split: option.splits)
  from c e v own show ?thesis
    by (simp add: Push_ForeignError call_Error_def line_1 line_2 nth_append)
qed

theorem Push_foreign_render_witness:
  "prints_own_text plain_error () \<and>
   call_Error (ForeignError plain_error) [] () = Some (''EOF'', [], ()) \<and>
   call_Error (fst (Push (ForeignError plain_error) ''read failed'' []))
       (snd (Push (ForeignError plain_error) ''read failed'' [])) () =
     Some (''Error 1: '' @ [dquote] @ ''read failed'' @ [dquote] @ ''.'' @ [newline] @
           ''Error 2: '' @ [dquote] @ ''EOF'' @ [dquote] @ ''.'' @ [newline],
           snd (Push (ForeignError plain_error) ''read failed'' []), ())"
proof -
  have p: "prints_own_text plain_error ()"
    by (simp add: prints_own_text_def plain_error_def)
  have o: "call_Error (ForeignError plain_error) [] () = Some (''EOF'', [], ())"
    by (simp add: call_Error_def plain_error_def)
  from Push_foreign_render [where f = plain_error and s = "''read failed''" and h = "[]"
      and w = "()"] p o show ?thesis
    by (auto simp: Push_ForeignError)
qed

text \<open>
  C5, as the claim has it, fails: for the error that formats itself, the second line
  quotes \<^verbatim>\<open>formatted\<close>, which is what \<^verbatim>\<open>%v\<close> prints for it, while the text that the error
  gives of itself, the result of its \<^verbatim>\<open>Error()\<close>, is \<^verbatim>\<open>plain\<close>.
\<close>

theorem Push_foreign_not_own_text:
  "call_Error (fst (Push (ForeignError formatted_error) ''read failed'' []))
       (snd (Push (ForeignError formatted_error) ''read failed'' [])) () =
     Some (''Error 1: '' @ [dquote] @ ''read failed'' @ [dquote] @ ''.'' @ [newline] @
           ''Error 2: '' @ [dquote] @ ''formatted'' @ [dquote] @ ''.'' @ [newline],
           snd (Push (ForeignError formatted_error) ''read failed'' []), ()) \<and>
   call_Error (ForeignError formatted_error) [] () = Some (''plain'', [], ()) \<and>
   ''formatted'' \<noteq> ''plain''"
proof -
  have v: "fmt_v formatted_error () = (''formatted'', ())"
    by (simp add: formatted_error_def)
  have "call_Error (ForeignError formatted_error) [] () = Some (''plain'', [], ())"
    by (simp add: call_Error_def formatted_error_def)
  with Error_foreign_pair [OF v, of "[]" "''read failed''"] show ?thesis
    by (simp add: Push_ForeignError call_Error_def line_1 line_2)
qed

subsection \<open>The formatted constructors\<close>

text \<open>
  C8. For every format, argument list and formatter, \<^verbatim>\<open>Newf(format, args)\<close> is \<^verbatim>\<open>New\<close> of
  the formatted string, and for every error \<open>e\<close>, \<^verbatim>\<open>Pushf(e, format, args)\<close> is
  \<^verbatim>\<open>Push(e, ...)\<close> of the formatted string.
\<close>

theorem formatted_constructors:
  "Newf Sprintf format args h = New (Sprintf format args) h \<and>
   Pushf Sprintf e format args h = Push e (Sprintf format args) h"
  by (simp add: Newf_def Pushf_def)

subsection \<open>Sequences of pushes\<close>

lemma chain_append: "chain h q as \<Longrightarrow> chain (h @ ext) q as"
  by (induction as arbitrary: q) (simp_all add: nth_append)

lemma chain_bound: "chain h q as \<Longrightarrow> a \<in> set as \<Longrightarrow> a < length h"
  by (induction as arbitrary: q) auto

lemma chain_values_append:
  "chain h q as \<Longrightarrow> map (\<lambda>a. value_f ((h @ ext) ! a)) as = map (\<lambda>a. value_f (h ! a)) as"
  by (auto simp: nth_append dest: chain_bound)

lemma Push_all_chain:
  "chain h q as \<Longrightarrow> map (\<lambda>a. value_f (h ! a)) as = vs \<Longrightarrow>
   \<exists>p' as' h'. Push_all (ElistError q) ss h = (ElistError p', h') \<and> chain h' p' as' \<and>
     length h' = length h + length ss \<and>
     map (\<lambda>a. value_f (h' ! a)) as' = map StringValue (rev ss) @ vs"
proof (induction ss arbitrary: q as h vs)
  case Nil
  then show ?case by auto
next
  case (Cons s ss)
  let ?h1 = "h @ [\<lparr>next_f = q, value_f = StringValue s\<rparr>]"
  have c1: "chain ?h1 (Some (length h)) (length h # as)"
    using Cons.prems(1) by (simp add: chain_append)
  have v1: "map (\<lambda>a. value_f (?h1 ! a)) (length h # as) = StringValue s # vs"
    using Cons.prems by (simp add: chain_values_append)
  from Cons.IH [OF c1 v1] show ?case
    by (auto simp: Push_ElistError)
qed

lemma lines_from_concat:
  "lines_from n ts = concat (map (\<lambda>i. line (n + int i) (ts ! i)) [0..<length ts])"
proof (induction ts arbitrary: n)
  case Nil
  show ?case by simp
next
  case (Cons t ts)
  have "[0..<length (t # ts)] = 0 # map Suc [0..<length ts]"
    by (simp add: upt_conv_Cons map_Suc_upt del: upt_Suc)
  then show ?case
    by (simp add: Cons.IH comp_def add.assoc del: upt_Suc)
qed

lemma lines_from_rev:
  "lines_from 1 (rev msgs) =
   concat (map (\<lambda>k. line (int k) (msgs ! (length msgs - k))) [1..<Suc (length msgs)])"
proof -
  let ?n = "length msgs"
  have "lines_from 1 (rev msgs) = concat (map (\<lambda>i. line (1 + int i) (rev msgs ! i)) [0..<?n])"
    by (simp add: lines_from_concat)
  also have "map (\<lambda>i. line (1 + int i) (rev msgs ! i)) [0..<?n] =
      map (\<lambda>i. line (int (Suc i)) (msgs ! (?n - Suc i))) [0..<?n]"
    by (rule map_cong) (simp_all add: rev_nth)
  also have "\<dots> = map (\<lambda>k. line (int k) (msgs ! (?n - k))) (map Suc [0..<?n])"
    by (simp add: comp_def)
  also have "map Suc [0..<?n] = [1..<Suc ?n]"
    by (simp add: map_Suc_upt del: upt_Suc)
  finally show ?thesis .
qed

text \<open>
  C6. For every non-empty list \<open>msgs\<close> of \<open>n\<close> messages, in every store and world, pushing
  them one after the other, starting from the nil error, allocates \<open>n\<close> nodes and
  returns a chain of exactly \<open>n\<close> nodes that holds the messages from the last pushed to
  the first; its text is, for \<open>k\<close> from 1 to \<open>n\<close> in this order, the line numbered \<open>k\<close>
  with the message pushed \<open>k\<close>-th from the end (line 1 has the last message, line \<open>n\<close>
  the first).
\<close>

theorem Push_all_render:
  assumes "msgs \<noteq> []"
  shows "case Push_all NilError msgs h of (c, h') \<Rightarrow>
     \<exists>p as. c = ElistError p \<and> chain h' p as \<and> length as = length msgs \<and>
       length h' = length h + length msgs \<and>
       map (\<lambda>a. value_f (h' ! a)) as = map StringValue (rev msgs) \<and>
       call_Error c h' w =
         Some (concat (map (\<lambda>k. line (int k) (msgs ! (length msgs - k)))
                 [1..<Suc (length msgs)]), h', w)"
proof -
  from assms obtain s ss where msgs: "msgs = s # ss" by (cases msgs) auto
  have start: "Push_all NilError msgs h = Push_all (ElistError None) msgs h"
    by (simp add: msgs Push_NilError Push_ElistError)
  have "chain h None []" by simp
  from Push_all_chain [OF this refl, of msgs]
  obtain p' as' h' where r: "Push_all (ElistError None) msgs h = (ElistError p', h')"
    "chain h' p' as'" "length h' = length h + length msgs"
    "map (\<lambda>a. value_f (h' ! a)) as' = map StringValue (rev msgs)"
    by auto
  from r(4) have len: "length as' = length msgs"
    by (metis length_map length_rev)
  from r(4) have texts:
    "chain_lines 1 (map (\<lambda>a. value_f (h' ! a)) as') w = Some (lines_from 1 (rev msgs), w)"
    by (simp only: chain_lines_strings)
  from len msgs r(2) obtain a where p': "p' = Some a" by (cases as') auto
  have "Error p' h' w = Some (lines_from 1 (rev msgs), h', w)"
    using Error_chain [OF r(2) [unfolded p'] texts] p' by simp
  with r len show ?thesis
    by (auto simp add: start call_Error_def lines_from_rev simp del: upt_Suc)
qed

theorem Push_all_render_witness:
  "[''db'', ''service'', ''handler''] \<noteq> [] \<and>
   (case Push_all NilError [''db'', ''service'', ''handler''] [] of (c, h') \<Rightarrow>
      c = ElistError (Some 2) \<and> length h' = 3 \<and>
      call_Error c h' () =
        Some (line 1 ''handler'' @ line 2 ''service'' @ line 3 ''db'', h', ()))"
  using Push_all_render [of "[''db'', ''service'', ''handler'']" "[]" "()"]
  by (auto simp add: Push_NilError Push_ElistError upt_rec)

subsection \<open>Rendering and the chain\<close>





subsection \<open>The payloads of the chains that the package builds\<close>

lemma well_built_append1:
  assumes "well_built h" "message_or_foreign v" "q = None \<or> (\<exists>b. q = Some b \<and> b < length h)"
  shows "well_built (h @ [\<lparr>next_f = q, value_f = v\<rparr>])"
  unfolding well_built_def
proof (intro allI impI)
  let ?h = "h @ [\<lparr>next_f = q, value_f = v\<rparr>]"
  fix a assume a: "a < length ?h"
  show "message_or_foreign (value_f (?h ! a)) \<and> (\<exists>as. chain ?h (Some a) as)"
  proof (cases "a < length h")
    case True
    with assms(1) obtain as where "message_or_foreign (value_f (h ! a))" "chain h (Some a) as"
      by (auto simp: well_built_def)
    then show ?thesis using True chain_append [of h "Some a" as]
      by (auto simp: nth_append)
  next
    case False
    with a have eq: "a = length h" by simp
    from assms(3) obtain bs where "chain h q bs"
    proof
      assume "q = None"
      then have "chain h q []" by simp
      then show ?thesis by (rule that)
    next
      assume "\<exists>b. q = Some b \<and> b < length h"
      with assms(1) show ?thesis by (auto simp: well_built_def intro: that)
    qed
    then have c: "chain ?h (Some a) (a # bs)"
      using eq by (simp add: chain_append)
    have "message_or_foreign (value_f (?h ! a))"
      using assms(2) eq by simp
    with c show ?thesis by blast
  qed
qed

lemma well_built_append2:
  assumes "well_built h"
  shows "well_built (h @ [\<lparr>next_f = Some (Suc (length h)), value_f = StringValue s\<rparr>,
                          \<lparr>next_f = None, value_f = ForeignValue f\<rparr>])"
  unfolding well_built_def
proof (intro allI impI)
  let ?h = "h @ [\<lparr>next_f = Some (Suc (length h)), value_f = StringValue s\<rparr>,
                 \<lparr>next_f = None, value_f = ForeignValue f\<rparr>]"
  fix a assume a: "a < length ?h"
  then consider "a < length h" | "a = length h" | "a = Suc (length h)"
    by fastforce
  then show "message_or_foreign (value_f (?h ! a)) \<and> (\<exists>as. chain ?h (Some a) as)"
  proof cases
    case 1
    with assms obtain as where "message_or_foreign (value_f (h ! a))" "chain h (Some a) as"
      by (auto simp: well_built_def)
    then show ?thesis using 1 chain_append [of h "Some a" as]
      by (auto simp: nth_append)
  next
    case 2
    then have "chain ?h (Some a) [a, Suc a]" by (simp add: nth_append)
    moreover have "message_or_foreign (value_f (?h ! a))" using 2 by (simp add: nth_append)
    ultimately show ?thesis by blast
  next
    case 3
    then have "chain ?h (Some a) [a]" by (simp add: nth_append)
    moreover have "message_or_foreign (value_f (?h ! a))" using 3 by (simp add: nth_append)
    ultimately show ?thesis by blast
  qed
qed

lemma well_built_New: "well_built h \<Longrightarrow> well_built (snd (New s h))"
  by (simp add: New_eq well_built_append1)

lemma well_built_Push:
  assumes "well_built h" "admissible h e"
  shows "well_built (snd (Push e s h))"
proof (cases e)
  case NilError
  with assms show ?thesis by (simp add: Push_NilError well_built_append1)
next
  case (ElistError q)
  with assms show ?thesis
    by (cases q) (simp_all add: Push_ElistError well_built_append1 admissible_def)
next
  case (ForeignError f)
  with assms show ?thesis by (simp add: Push_ForeignError well_built_append2)
qed

lemma reachable_well_built: "reachable h \<Longrightarrow> well_built h"
proof (induction rule: reachable.induct)
  case initially
  show ?case by (simp add: well_built_def)
qed (simp_all add: well_built_New well_built_Push Newf_def Pushf_def)

lemma chain_lines_defined:
  "\<forall>v\<in>set vs. message_or_foreign v \<Longrightarrow> \<exists>out w'. chain_lines n vs w = Some (out, w')"
proof (induction vs arbitrary: n w)
  case Nil
  show ?case by simp
next
  case (Cons v vs)
  from Cons.prems obtain t w1 where t: "payload_text v w = Some (t, w1)"
    by (cases v) (auto intro: prod.exhaust)
  from Cons obtain out w' where "chain_lines (n + 1) vs w1 = Some (out, w')"
    by fastforce
  with t show ?case by simp
qed

text \<open>
  C9. In every store that calls of \<^verbatim>\<open>New\<close>, \<^verbatim>\<open>Newf\<close>, \<^verbatim>\<open>Push\<close> and \<^verbatim>\<open>Pushf\<close> have built,
  every node starts a chain that ends, and every node of that chain holds a message
  string or an adopted foreign error. So the loop of \<^verbatim>\<open>Error\<close> takes the case \<^verbatim>\<open>string\<close>
  or the case \<^verbatim>\<open>error\<close> at each node, never the case \<^verbatim>\<open>nil\<close> and never \<^verbatim>\<open>default\<close>, and
  its text is made of the lines \<^verbatim>\<open>Error {n}: "{text}".\<close> alone.
\<close>

theorem built_chains_have_text:
  assumes "reachable h" "a < length h"
  shows "\<exists>as out w'. chain h (Some a) as \<and>
     (\<forall>b\<in>set as. b < length h \<and> message_or_foreign (value_f (h ! b))) \<and>
     chain_lines 1 (map (\<lambda>b. value_f (h ! b)) as) w = Some (out, w') \<and>
     Error (Some a) h w = Some (out, h, w')"
proof -
  from assms have wb: "well_built h" by (simp add: reachable_well_built)
  with assms(2) obtain as where as: "chain h (Some a) as" by (auto simp: well_built_def)
  then have bound: "\<forall>b\<in>set as. b < length h" by (auto dest: chain_bound)
  with wb have mf: "\<forall>b\<in>set as. message_or_foreign (value_f (h ! b))"
    by (auto simp: well_built_def)
  then have "\<forall>v\<in>set (map (\<lambda>b. value_f (h ! b)) as). message_or_foreign v" by simp
  from chain_lines_defined [OF this, of 1 w] obtain out w' where
    ts: "chain_lines 1 (map (\<lambda>b. value_f (h ! b)) as) w = Some (out, w')" by blast
  from Error_chain [OF as ts] as bound mf ts show ?thesis by blast
qed

theorem built_chains_have_text_witness:
  "reachable (snd (Push (ForeignError plain_error) ''read failed'' [])) \<and>
   (0::nat) < length (snd (Push (ForeignError plain_error) ''read failed'' [])) \<and>
   (\<exists>as out w'. chain (snd (Push (ForeignError plain_error) ''read failed'' [])) (Some 0) as \<and>
      Error (Some 0) (snd (Push (ForeignError plain_error) ''read failed'' [])) () =
        Some (out, snd (Push (ForeignError plain_error) ''read failed'' []), w'))"
proof -
  let ?h = "snd (Push (ForeignError plain_error) ''read failed'' [])"
  have r: "reachable ?h"
    by (rule after_Push [OF initially]) (simp add: admissible_def)
  have l: "0 < length ?h"
    by (simp add: Push_ForeignError)
  from built_chains_have_text [OF r l, of "()"] r l show ?thesis by blast
qed

end
